theory Spec2Isabelle
  imports Complex_Main "HOL-Library.AList"
begin

section \<open>Values of the reconciliation engine (server/index.js)\<close>

text \<open>
  A JavaScript number is a finite double, an infinity or NaN. Finite doubles are modelled
  by exact rationals: the rounding error of double arithmetic, overflow to an infinity
  and the sign of zero are not modelled (\<open>-0 === 0\<close> holds in the source as well).
\<close>

datatype jsnum = Fin rat | PInf | NInf | NaN

text \<open>
  The values \<open>JSON.parse\<close> can return, and \<open>undefined\<close> for an absent property.
  Strings and property keys are byte sequences (UTF-8); the program inspects ASCII
  characters only. An array carries its elements and its own named properties (empty
  after \<open>JSON.parse\<close>; \<open>reconcileMath\<close> adds some when handed an array).
\<close>

datatype jsval =
    JUndefined
  | JNull
  | JBool bool
  | JNum jsnum
  | JStr string
  | JArr "jsval list" "(string \<times> jsval) list"
  | JObj "(string \<times> jsval) list"

datatype error = TypeError

type_synonym props = "(string \<times> jsval) list"

definition ebind :: "error + 'a \<Rightarrow> ('a \<Rightarrow> error + 'b) \<Rightarrow> error + 'b" where
  "ebind m f = (case m of Inl e \<Rightarrow> Inl e | Inr v \<Rightarrow> f v)"

text \<open>\<open>!x\<close> is \<open>\<not> truthy x\<close>.\<close>

fun truthy :: "jsval \<Rightarrow> bool" where
  "truthy JUndefined = False"
| "truthy JNull = False"
| "truthy (JBool b) = b"
| "truthy (JNum (Fin r)) = (r \<noteq> 0)"
| "truthy (JNum NaN) = False"
| "truthy (JNum PInf) = True"
| "truthy (JNum NInf) = True"
| "truthy (JStr s) = (s \<noteq> [])"
| "truthy (JArr es ps) = True"
| "truthy (JObj ps) = True"

fun typeof :: "jsval \<Rightarrow> string" where
  "typeof JUndefined = ''undefined''"
| "typeof JNull = ''object''"
| "typeof (JBool b) = ''boolean''"
| "typeof (JNum n) = ''number''"
| "typeof (JStr s) = ''string''"
| "typeof (JArr es ps) = ''object''"
| "typeof (JObj ps) = ''object''"

text \<open>
  Reading an own property; an absent one reads as \<open>undefined\<close>. Only used for the keys
  the program reads, none of which is inherited from a prototype.
\<close>

definition lookup :: "props \<Rightarrow> string \<Rightarrow> jsval" where
  "lookup ps k = (case map_of ps k of Some v \<Rightarrow> v | None \<Rightarrow> JUndefined)"

text \<open>\<open>x.k\<close>: a TypeError on \<open>null\<close> and \<open>undefined\<close>, \<open>undefined\<close> on the other primitives.\<close>

fun get_prop :: "jsval \<Rightarrow> string \<Rightarrow> error + jsval" where
  "get_prop JUndefined k = Inl TypeError"
| "get_prop JNull k = Inl TypeError"
| "get_prop (JObj ps) k = Inr (lookup ps k)"
| "get_prop (JArr es ps) k = Inr (lookup ps k)"
| "get_prop (JBool b) k = Inr JUndefined"
| "get_prop (JNum n) k = Inr JUndefined"
| "get_prop (JStr s) k = Inr JUndefined"

text \<open>
  \<open>String(x)\<close>. The rendering of a number is a parameter \<open>nts\<close> (Number::toString), which
  the exact model of numbers cannot define; it is reached only for numbers inside arrays.
  An object whose own \<open>toString\<close> property is a JSON value (hence not callable) has no
  primitive value: \<open>String\<close> throws a TypeError. An array is joined with commas, \<open>null\<close>
  and \<open>undefined\<close> elements rendering as the empty string.
\<close>

fun js_String :: "(jsnum \<Rightarrow> string) \<Rightarrow> jsval \<Rightarrow> error + string"
  and join_elems :: "(jsnum \<Rightarrow> string) \<Rightarrow> jsval list \<Rightarrow> error + string"
where
  "js_String nts JUndefined = Inr ''undefined''"
| "js_String nts JNull = Inr ''null''"
| "js_String nts (JBool b) = Inr (if b then ''true'' else ''false'')"
| "js_String nts (JNum n) = Inr (nts n)"
| "js_String nts (JStr s) = Inr s"
| "js_String nts (JObj ps) =
     (if map_of ps ''toString'' \<noteq> None then Inl TypeError else Inr ''[object Object]'')"
| "js_String nts (JArr es ps) =
     (if map_of ps ''toString'' \<noteq> None then Inl TypeError
      else if map_of ps ''join'' \<noteq> None then Inr ''[object Array]''
      else join_elems nts es)"
| "join_elems nts [] = Inr []"
| "join_elems nts (e # es) =
     ebind (if e = JNull \<or> e = JUndefined then Inr [] else js_String nts e) (\<lambda>s.
       if es = [] then Inr s
       else ebind (join_elems nts es) (\<lambda>r. Inr (s @ '','' @ r)))"

subsection \<open>toNumber\<close>

definition is_digit :: "char \<Rightarrow> bool" where
  "is_digit c = (48 \<le> (of_char c :: nat) \<and> (of_char c :: nat) \<le> 57)"

definition digits_val :: "string \<Rightarrow> nat" where
  "digits_val s = foldl (\<lambda>acc c. 10 * acc + ((of_char c :: nat) - 48)) 0 s"

text \<open>
  \<open>Number(s)\<close> for a non-empty string of digits, dots and minus signs (StrDecimalLiteral
  without exponent): an optional minus sign, then digits with an optional fraction, or a
  dot followed by digits. \<open>None\<close> stands for NaN.
\<close>

definition parse_unsigned :: "string \<Rightarrow> rat option" where
  "parse_unsigned s =
     (let ip = takeWhile is_digit s; r = dropWhile is_digit s in
      case r of
        [] \<Rightarrow> (if ip = [] then None else Some (of_nat (digits_val ip)))
      | c # fp \<Rightarrow>
          (if c = CHR ''.'' \<and> list_all is_digit fp \<and> (ip \<noteq> [] \<or> fp \<noteq> [])
           then Some (of_nat (digits_val ip) + of_nat (digits_val fp) / 10 ^ length fp)
           else None))"

definition js_Number :: "string \<Rightarrow> rat option" where
  "js_Number s =
     (case s of
        [] \<Rightarrow> Some 0
      | c # t \<Rightarrow> (if c = CHR ''-'' then map_option uminus (parse_unsigned t)
                 else parse_unsigned s))"

text \<open>
  \<open>toNumber\<close> returns \<open>null\<close> (\<open>None\<close>) or a finite number. \<open>Number.isFinite\<close> on the parsed
  string only rejects NaN here: a digit string too long for a double would be an
  infinity in the source and is a finite rational in the model.
\<close>

definition toNumber :: "(jsnum \<Rightarrow> string) \<Rightarrow> jsval \<Rightarrow> error + rat option" where
  "toNumber nts x =
     (case x of
        JNull \<Rightarrow> Inr None
      | JUndefined \<Rightarrow> Inr None
      | JNum n \<Rightarrow> Inr (case n of Fin r \<Rightarrow> Some r | _ \<Rightarrow> None)
      | _ \<Rightarrow>
         ebind (js_String nts x) (\<lambda>str.
           let s = filter (\<lambda>c. is_digit c \<or> c = CHR ''.'' \<or> c = CHR ''-'')
                     (filter (\<lambda>c. c \<noteq> CHR '','' \<and> c \<noteq> CHR '' '') str)
           in if s = [] then Inr None else Inr (js_Number s)))"

subsection \<open>round2 and approxEqual\<close>

definition EPSILON :: rat where
  "EPSILON = 1 / 2 ^ 52"

text \<open>\<open>Math.round\<close>: the nearest integer, a tie going towards plus infinity.\<close>

definition math_round :: "rat \<Rightarrow> rat" where
  "math_round x = of_int \<lfloor>x + 1 / 2\<rfloor>"

definition round2_fin :: "rat \<Rightarrow> rat" where
  "round2_fin n = math_round ((n + EPSILON) * 100) / 100"

definition round2 :: "rat option \<Rightarrow> rat option" where
  "round2 n = (case n of None \<Rightarrow> None | Some r \<Rightarrow> Some (round2_fin r))"

definition approxEqual :: "rat option \<Rightarrow> rat option \<Rightarrow> rat \<Rightarrow> bool" where
  "approxEqual a b tol =
     (case (a, b) of (Some x, Some y) \<Rightarrow> \<bar>x - y\<bar> \<le> tol | _ \<Rightarrow> False)"

text \<open>Division of finite numbers; the divisor may be zero.\<close>

definition js_div :: "rat \<Rightarrow> rat \<Rightarrow> jsnum" where
  "js_div a b =
     (if b \<noteq> 0 then Fin (a / b)
      else if a = 0 then NaN else if 0 < a then PInf else NInf)"

subsection \<open>The repair of one line item\<close>

text \<open>
  The variables \<open>qty\<close>, \<open>unit\<close> and \<open>amt\<close> of the source hold \<open>null\<close> or a finite number
  throughout, hence \<open>rat option\<close>. Each definition is one \<open>if\<close> of the callback of
  \<open>items.map\<close>, in the order of the source.
\<close>

definition fill_amount :: "rat option \<Rightarrow> rat option \<Rightarrow> rat option \<Rightarrow> rat option" where
  "fill_amount qty unit amt =
     (case (amt, qty, unit) of
        (None, Some q, Some u) \<Rightarrow> round2 (Some (q * u))
      | _ \<Rightarrow> amt)"

definition fill_unit :: "rat option \<Rightarrow> rat option \<Rightarrow> rat option \<Rightarrow> rat option" where
  "fill_unit qty unit amt =
     (case (unit, qty, amt) of
        (None, Some q, Some a) \<Rightarrow> (if q \<noteq> 0 then round2 (Some (a / q)) else unit)
      | _ \<Rightarrow> unit)"

definition snap_qty :: "rat \<Rightarrow> rat \<Rightarrow> rat" where
  "snap_qty a u =
     (let q = a / u; qInt = math_round q
      in if \<bar>q - qInt\<bar> < 2 / 100 then qInt else round2_fin q)"

definition fill_qty :: "rat option \<Rightarrow> rat option \<Rightarrow> rat option \<Rightarrow> rat option" where
  "fill_qty qty unit amt =
     (case (qty, unit, amt) of
        (None, Some u, Some a) \<Rightarrow> (if u \<noteq> 0 then Some (snap_qty a u) else qty)
      | _ \<Rightarrow> qty)"

text \<open>The last resort of the consistency check: \<open>if (qty !== 0) unit = round2(amt / qty)\<close>.\<close>

definition last_resort :: "rat \<Rightarrow> rat \<Rightarrow> rat \<Rightarrow> rat option" where
  "last_resort q0 u a = (if q0 \<noteq> 0 then round2 (Some (a / q0)) else Some u)"

text \<open>
  The consistency check returns the new \<open>qty\<close> and \<open>unit\<close>. Its division \<open>amt / unit\<close> is
  not guarded: with \<open>unit\<close> zero, \<open>q\<close> is an infinity or NaN, \<open>Math.round(q)\<close> is \<open>q\<close>,
  \<open>q - qInt\<close> is NaN and \<open>Math.abs(q - qInt) < 0.05\<close> is false.
\<close>

definition fix_item :: "rat option \<Rightarrow> rat option \<Rightarrow> rat option \<Rightarrow> rat option \<times> rat option" where
  "fix_item qty unit amt =
     (case (qty, unit, amt) of
        (Some q0, Some u, Some a) \<Rightarrow>
          (let calc = round2 (Some (q0 * u)) in
           if \<not> approxEqual calc amt (5 / 100) then
             (case js_div a u of
                Fin q \<Rightarrow>
                  (let qInt = math_round q; calc2 = round2 (Some (qInt * u)) in
                   if \<bar>q - qInt\<bar> < 5 / 100 \<and> approxEqual calc2 amt (1 / 10)
                   then (Some qInt, unit)
                   else (qty, last_resort q0 u a))
              | _ \<Rightarrow> (qty, last_resort q0 u a))
           else (qty, unit))
      | _ \<Rightarrow> (qty, unit))"

definition repair :: "rat option \<Rightarrow> rat option \<Rightarrow> rat option \<Rightarrow> rat option \<times> rat option \<times> rat option" where
  "repair qty0 unit0 amt0 =
     (let amt = fill_amount qty0 unit0 amt0;
          unit1 = fill_unit qty0 unit0 amt;
          qty1 = fill_qty qty0 unit1 amt;
          (qty, unit) = fix_item qty1 unit1 amt
      in (qty, unit, amt))"

text \<open>\<open>x ?? null\<close>\<close>

definition nullish_null :: "jsval \<Rightarrow> jsval" where
  "nullish_null v = (if v = JUndefined \<or> v = JNull then JNull else v)"

definition of_num :: "rat option \<Rightarrow> jsval" where
  "of_num n = (case n of None \<Rightarrow> JNull | Some r \<Rightarrow> JNum (Fin r))"

definition repair_item :: "(jsnum \<Rightarrow> string) \<Rightarrow> jsval \<Rightarrow> error + jsval" where
  "repair_item nts it =
     ebind (get_prop it ''qty'') (\<lambda>x. ebind (toNumber nts x) (\<lambda>qty0.
     ebind (get_prop it ''unit_price'') (\<lambda>x. ebind (toNumber nts x) (\<lambda>u0.
     ebind (get_prop it ''amount'') (\<lambda>x. ebind (toNumber nts x) (\<lambda>a0.
     ebind (get_prop it ''product_or_service'') (\<lambda>p.
     ebind (get_prop it ''description'') (\<lambda>d.
       let (qty, unit, amt) = repair qty0 (round2 u0) (round2 a0)
       in Inr (JObj [(''product_or_service'', nullish_null p),
                     (''description'', nullish_null d),
                     (''qty'', of_num qty),
                     (''unit_price'', of_num unit),
                     (''amount'', of_num amt)])))))))))"

subsection \<open>reconcileMath\<close>

text \<open>\<open>Array.prototype.map\<close> with a callback that may throw.\<close>

fun map_e :: "('a \<Rightarrow> error + 'b) \<Rightarrow> 'a list \<Rightarrow> error + 'b list" where
  "map_e f [] = Inr []"
| "map_e f (x # xs) = ebind (f x) (\<lambda>y. ebind (map_e f xs) (\<lambda>ys. Inr (y # ys)))"

text \<open>\<open>Array.isArray(structured.line_items) ? structured.line_items : []\<close>\<close>

definition items_of :: "jsval \<Rightarrow> jsval list" where
  "items_of v = (case v of JArr es ps \<Rightarrow> es | _ \<Rightarrow> [])"

text \<open>\<open>reduce((s, it) => s + (toNumber(it.amount) || 0), 0)\<close>; \<open>null\<close> and 0 are falsy.\<close>

fun sum_amounts :: "(jsnum \<Rightarrow> string) \<Rightarrow> jsval list \<Rightarrow> rat \<Rightarrow> error + rat" where
  "sum_amounts nts [] s = Inr s"
| "sum_amounts nts (it # its) s =
     ebind (get_prop it ''amount'') (\<lambda>x. ebind (toNumber nts x) (\<lambda>n.
       sum_amounts nts its (s + (case n of None \<Rightarrow> 0 | Some r \<Rightarrow> if r \<noteq> 0 then r else 0))))"

text \<open>An assignment \<open>structured.k = v\<close>: an own key keeps its place, a new key goes last.\<close>

definition set_prop :: "props \<Rightarrow> string \<Rightarrow> jsval \<Rightarrow> props" where
  "set_prop ps k v = AList.update k v ps"

text \<open>The three derivations of the document level, on the values the properties hold.\<close>

definition derive_subtotal :: "rat option \<Rightarrow> rat \<Rightarrow> rat option" where
  "derive_subtotal subtotal sumItems =
     (if subtotal = None \<and> sumItems \<noteq> 0 then Some sumItems else subtotal)"

definition derive_tax_amount :: "rat option \<Rightarrow> rat option \<Rightarrow> rat option \<Rightarrow> rat option" where
  "derive_tax_amount tax_amount subtotal tax_rate =
     (case (tax_amount, subtotal, tax_rate) of
        (None, Some s, Some r) \<Rightarrow> round2 (Some (s * (r / 100)))
      | _ \<Rightarrow> tax_amount)"

definition derive_total :: "rat option \<Rightarrow> rat option \<Rightarrow> rat option \<Rightarrow> rat option" where
  "derive_total total0 subtotal tax_amount =
     (case (total0, subtotal, tax_amount) of
        (None, Some s, Some t) \<Rightarrow> round2 (Some (s + t))
      | _ \<Rightarrow> total0)"

text \<open>
  The body of \<open>reconcileMath\<close> on the own properties of \<open>structured\<close>, every assignment in
  the order of the source.
\<close>

definition reconcile_props :: "(jsnum \<Rightarrow> string) \<Rightarrow> props \<Rightarrow> error + props" where
  "reconcile_props nts ps0 =
     ebind (toNumber nts (lookup ps0 ''subtotal'')) (\<lambda>n0.
     let subtotal0 = round2 n0; ps1 = set_prop ps0 ''subtotal'' (of_num subtotal0) in
     ebind (toNumber nts (lookup ps1 ''tax_rate'')) (\<lambda>tax_rate.
     let ps2 = set_prop ps1 ''tax_rate'' (of_num tax_rate) in
     ebind (toNumber nts (lookup ps2 ''tax_amount'')) (\<lambda>n2.
     let tax_amount0 = round2 n2; ps3 = set_prop ps2 ''tax_amount'' (of_num tax_amount0) in
     ebind (toNumber nts (lookup ps3 ''total'')) (\<lambda>n3.
     let total0 = round2 n3; ps4 = set_prop ps3 ''total'' (of_num total0) in
     ebind (map_e (repair_item nts) (items_of (lookup ps4 ''line_items''))) (\<lambda>items.
     let ps5 = set_prop ps4 ''line_items'' (JArr items []) in
     ebind (sum_amounts nts items 0) (\<lambda>s.
     let sumItems = round2_fin s;
         subtotal = derive_subtotal subtotal0 sumItems;
         ps6 = (if subtotal0 = None \<and> sumItems \<noteq> 0
                then set_prop ps5 ''subtotal'' (of_num subtotal) else ps5);
         tax_amount = derive_tax_amount tax_amount0 subtotal tax_rate;
         ps7 = (if tax_amount0 = None \<and> subtotal \<noteq> None \<and> tax_rate \<noteq> None
                then set_prop ps6 ''tax_amount'' (of_num tax_amount) else ps6);
         total1 = derive_total total0 subtotal tax_amount;
         ps8 = (if total0 = None \<and> subtotal \<noteq> None \<and> tax_amount \<noteq> None
                then set_prop ps7 ''total'' (of_num total1) else ps7)
     in Inr ps8))))))"

definition reconcileMath :: "(jsnum \<Rightarrow> string) \<Rightarrow> jsval \<Rightarrow> error + jsval" where
  "reconcileMath nts structured =
     (if \<not> truthy structured \<or> typeof structured \<noteq> ''object'' then Inr structured
      else case structured of
             JObj ps \<Rightarrow> ebind (reconcile_props nts ps) (\<lambda>ps'. Inr (JObj ps'))
           | JArr es ps \<Rightarrow> ebind (reconcile_props nts ps) (\<lambda>ps'. Inr (JArr es ps'))
           | _ \<Rightarrow> Inr structured)"

text \<open>
  A rendering of numbers to run the model on examples; it is that of JavaScript on
  integers. The theorems hold for every rendering.
\<close>

fun nat_digits :: "nat \<Rightarrow> nat \<Rightarrow> string" where
  "nat_digits 0 n = []"
| "nat_digits (Suc fuel) n =
     (if n < 10 then [char_of (48 + n)] else nat_digits fuel (n div 10) @ [char_of (48 + n mod 10)])"

definition int_string :: "jsnum \<Rightarrow> string" where
  "int_string n =
     (case n of
        NaN \<Rightarrow> ''NaN'' | PInf \<Rightarrow> ''Infinity'' | NInf \<Rightarrow> ''-Infinity''
      | Fin r \<Rightarrow> (let i = \<lfloor>r\<rfloor>; d = nat_digits (Suc (nat \<bar>i\<bar>)) (nat \<bar>i\<bar>)
                 in if i < 0 then CHR ''-'' # d else d))"

subsection \<open>Vocabulary of the statements\<close>

text \<open>The value of a property of a line item; \<open>undefined\<close> where the read would throw.\<close>

definition field :: "jsval \<Rightarrow> string \<Rightarrow> jsval" where
  "field x k = (case get_prop x k of Inr v \<Rightarrow> v | Inl e \<Rightarrow> JUndefined)"

text \<open>The amount of a line item as a term of a sum, \<open>null\<close> counting as 0.\<close>

definition item_amount :: "jsval \<Rightarrow> rat" where
  "item_amount it = (case field it ''amount'' of JNum (Fin r) \<Rightarrow> r | _ \<Rightarrow> 0)"

text \<open>The line items \<open>reconcileMath\<close> maps over.\<close>

definition line_items_of :: "jsval \<Rightarrow> jsval list" where
  "line_items_of x =
     (case x of
        JObj ps \<Rightarrow> items_of (lookup ps ''line_items'')
      | JArr es ps \<Rightarrow> items_of (lookup ps ''line_items'')
      | _ \<Rightarrow> [])"

text \<open>
  The consistency check reaches its last resort and recomputes the unit price: all three
  values known, \<open>qty * unit\<close> not approximately \<open>amt\<close>, no integer quantity adopted, and
  \<open>qty\<close> not zero.
\<close>

definition takes_last_resort :: "rat option \<Rightarrow> rat option \<Rightarrow> rat option \<Rightarrow> bool" where
  "takes_last_resort qty unit amt =
     (case (qty, unit, amt) of
        (Some q0, Some u, Some a) \<Rightarrow>
          \<not> approxEqual (round2 (Some (q0 * u))) amt (5 / 100)
          \<and> (case js_div a u of
                Fin q \<Rightarrow> \<not> (\<bar>q - math_round q\<bar> < 5 / 100
                             \<and> approxEqual (round2 (Some (math_round q * u))) amt (1 / 10))
              | _ \<Rightarrow> True)
          \<and> q0 \<noteq> 0
      | _ \<Rightarrow> False)"

text \<open>The same for a line item as \<open>reconcileMath\<close> receives it.\<close>

definition reaches_last_resort :: "(jsnum \<Rightarrow> string) \<Rightarrow> jsval \<Rightarrow> bool" where
  "reaches_last_resort nts it =
     (case (toNumber nts (field it ''qty''), toNumber nts (field it ''unit_price''),
            toNumber nts (field it ''amount'')) of
        (Inr qty0, Inr u0, Inr a0) \<Rightarrow>
          (let amt = fill_amount qty0 (round2 u0) (round2 a0);
               unit1 = fill_unit qty0 (round2 u0) amt;
               qty1 = fill_qty qty0 unit1 amt
           in takes_last_resort qty1 unit1 amt)
      | _ \<Rightarrow> False)"

section \<open>The OCR pipeline (the module App.jsx imports as lib/ocr)\<close>

text \<open>
  Text is a list of UTF-16 code units, which is what \<open>length\<close>, \<open>trim\<close> and a regular
  expression without the \<open>u\<close> flag see.
\<close>

type_synonym ustring = "nat list"

definition ustr :: "string \<Rightarrow> ustring" where
  "ustr s = map of_char s"

subsection \<open>scoreOcrText\<close>

text \<open>The code units \<open>String.prototype.trim\<close> removes: WhiteSpace and LineTerminator.\<close>

definition is_white_space :: "nat \<Rightarrow> bool" where
  "is_white_space c =
     (c \<in> set [9, 10, 11, 12, 13, 32, 160, 5760, 8232, 8233, 8239, 8287, 12288, 65279]
      \<or> (8192 \<le> c \<and> c \<le> 8202))"

definition trim :: "ustring \<Rightarrow> ustring" where
  "trim t = rev (dropWhile is_white_space (rev (dropWhile is_white_space t)))"

text \<open>\<open>/[A-Za-z]/\<close>, \<open>/[0-9]/\<close> and the replacement character U+FFFD of the third pattern.\<close>

definition is_letter :: "nat \<Rightarrow> bool" where
  "is_letter c = ((65 \<le> c \<and> c \<le> 90) \<or> (97 \<le> c \<and> c \<le> 122))"

definition is_digit16 :: "nat \<Rightarrow> bool" where
  "is_digit16 c = (48 \<le> c \<and> c \<le> 57)"

definition replacement_glyph :: nat where
  "replacement_glyph = 65533"

text \<open>\<open>(t.match(re) || []).length\<close> for a global pattern of one character class.\<close>

definition count_matches :: "(nat \<Rightarrow> bool) \<Rightarrow> ustring \<Rightarrow> nat" where
  "count_matches P t = length (filter P t)"

text \<open>The argument defaults to the empty string; every call site passes a string.\<close>

definition scoreOcrText :: "ustring \<Rightarrow> rat" where
  "scoreOcrText text =
     (let t = trim text in
      if t = [] then 0
      else (let letters = count_matches is_letter t;
                digits = count_matches is_digit16 t;
                bad = count_matches (\<lambda>c. c = replacement_glyph) t
            in of_nat letters + of_nat digits - of_nat bad * 5
               + min 200 (of_nat (length t) / 5)))"

subsection \<open>preprocessCanvas\<close>

text \<open>
  The image data of a canvas is its bytes, four per pixel, row by row. The model starts
  from the bytes \<open>getImageData\<close> returns once the source is drawn at the target size (the
  resampling is the browser's) and takes the canvas to store the bytes it is given.
  Channel arithmetic is exact.
\<close>

record config =
  upscale :: rat
  contrast :: rat
  threshold :: rat
  grayscale :: bool
  sharpen :: bool
  invert :: bool

definition default_config :: config where
  "default_config =
     \<lparr>upscale = 17 / 10, contrast = 35, threshold = 165, grayscale = True, sharpen = True,
      invert = False\<rparr>"

text \<open>\<open>Math.max(1, Math.floor(n * upscale))\<close>\<close>

definition target_size :: "rat \<Rightarrow> nat \<Rightarrow> nat" where
  "target_size up n = nat (max 1 \<lfloor>of_nat n * up\<rfloor>)"

text \<open>The value the first loop writes to the three colour channels of a pixel.\<close>

definition binarize_pixel :: "config \<Rightarrow> nat \<Rightarrow> nat \<Rightarrow> nat \<Rightarrow> nat" where
  "binarize_pixel cfg r0 g0 b0 =
     (let c = contrast cfg / 100 + 1;
          intercept = 128 * (1 - c);
          gray = 299 / 1000 * of_nat r0 + 587 / 1000 * of_nat g0 + 114 / 1000 * of_nat b0;
          r1 = (if grayscale cfg then gray else of_nat r0);
          g1 = (if grayscale cfg then gray else of_nat g0);
          b1 = (if grayscale cfg then gray else of_nat b0);
          r = r1 * c + intercept;
          g = g1 * c + intercept;
          b = b1 * c + intercept;
          v = (if threshold cfg \<le> (r + g + b) / 3 then 255 else 0)
      in if invert cfg then 255 - v else v)"

fun binarize :: "config \<Rightarrow> nat list \<Rightarrow> nat list" where
  "binarize cfg (r # g # b # a # rest) =
     (let v = binarize_pixel cfg r g b in v # v # v # a # binarize cfg rest)"
| "binarize cfg rest = rest"

text \<open>
  The sharpening block. \<open>dst\<close> is the data of a fresh \<open>createImageData(w, h)\<close>, all zero;
  the loops run over the pixels that have four neighbours and write them into \<open>dst\<close>,
  and \<open>putImageData(out, 0, 0)\<close> makes \<open>dst\<close> the content of the canvas.
\<close>

definition idx :: "nat \<Rightarrow> nat \<Rightarrow> nat \<Rightarrow> nat" where
  "idx w x y = (y * w + x) * 4"

definition kernel_value :: "nat \<Rightarrow> nat list \<Rightarrow> nat \<Rightarrow> nat \<Rightarrow> nat \<Rightarrow> nat" where
  "kernel_value w src x y ch =
     (let v = 5 * int (src ! (idx w x y + ch))
              - int (src ! (idx w (x - 1) y + ch))
              - int (src ! (idx w (x + 1) y + ch))
              - int (src ! (idx w x (y - 1) + ch))
              - int (src ! (idx w x (y + 1) + ch))
      in nat (max 0 (min 255 v)))"

definition sharpen_pixel :: "nat \<Rightarrow> nat list \<Rightarrow> nat \<Rightarrow> nat \<Rightarrow> nat list \<Rightarrow> nat list" where
  "sharpen_pixel w src x y dst =
     (let i = idx w x y;
          dst1 = fold (\<lambda>ch d. d[i + ch := kernel_value w src x y ch]) [0..<3] dst
      in dst1[i + 3 := src ! (i + 3)])"

definition sharpen_row :: "nat \<Rightarrow> nat list \<Rightarrow> nat \<Rightarrow> nat list \<Rightarrow> nat list" where
  "sharpen_row w src y dst = fold (\<lambda>x d. sharpen_pixel w src x y d) [1..<w - 1] dst"

definition sharpen_image :: "nat \<Rightarrow> nat \<Rightarrow> nat list \<Rightarrow> nat list" where
  "sharpen_image w h src =
     fold (\<lambda>y d. sharpen_row w src y d) [1..<h - 1] (replicate (w * h * 4) 0)"

text \<open>The bytes of the canvas \<open>preprocessCanvas\<close> returns, from those drawn at size \<open>w\<close> by \<open>h\<close>.\<close>

definition preprocess_pixels :: "config \<Rightarrow> nat \<Rightarrow> nat \<Rightarrow> nat list \<Rightarrow> nat list" where
  "preprocess_pixels cfg w h d =
     (let d1 = binarize cfg d in if sharpen cfg then sharpen_image w h d1 else d1)"

text \<open>Byte \<open>k\<close> belongs to a pixel of row 0, column 0, the last row or the last column.\<close>

definition is_border :: "nat \<Rightarrow> nat \<Rightarrow> nat \<Rightarrow> bool" where
  "is_border w h k =
     (let x = (k div 4) mod w; y = (k div 4) div w
      in x = 0 \<or> x = w - 1 \<or> y = 0 \<or> y = h - 1)"

subsection \<open>ocrTiff\<close>

text \<open>
  A frame as \<open>UTIF.decode\<close> and \<open>decodeImage(s)\<close> leave it: its dimensions (\<open>None\<close> for a
  missing one) and what \<open>UTIF.toRGBA8\<close> does on it: throw with a message (\<open>Inl\<close>), return
  nothing (\<open>Inr None\<close>) or return bytes.
\<close>

record ifd =
  width :: "nat option"
  height :: "nat option"
  toRGBA8 :: "ustring + nat list option"

record utif =
  has_decode :: bool
  has_toRGBA8 :: bool
  hasDecodeImages :: bool
  hasDecodeImage :: bool

datatype ocr_error =
    DecodeUnavailable
  | ToRGBA8Unavailable
  | NoPages
  | NoDecodeFunction
  | InvalidDimensions nat
  | ToRGBA8Failed nat ustring
  | EmptyPixelData nat
  | External ustring

text \<open>The page number an error message names (\<open>TIFF page n ...\<close>).\<close>

fun error_page :: "ocr_error \<Rightarrow> nat option" where
  "error_page (InvalidDimensions n) = Some n"
| "error_page (ToRGBA8Failed n m) = Some n"
| "error_page (EmptyPixelData n) = Some n"
| "error_page e = None"

text \<open>\<open>!w\<close> for a dimension: missing or zero.\<close>

definition falsy_dim :: "nat option \<Rightarrow> bool" where
  "falsy_dim d = (case d of None \<Rightarrow> True | Some n \<Rightarrow> n = 0)"

text \<open>
  The loop over the frames, \<open>i\<close> counting from 0. The parameter \<open>recognise\<close> stands for the
  rest of the loop body: putting the bytes on a canvas and \<open>canvasToOcrText\<close>; an
  exception there is its \<open>Inl\<close>.
\<close>

fun ocr_frames ::
  "(nat \<Rightarrow> nat \<Rightarrow> nat list \<Rightarrow> ocr_error + ustring) \<Rightarrow> nat \<Rightarrow> ifd list \<Rightarrow> ustring list
   \<Rightarrow> ocr_error + ustring list" where
  "ocr_frames recognise i [] allText = Inr allText"
| "ocr_frames recognise i (page # rest) allText =
     (if falsy_dim (width page) \<or> falsy_dim (height page) then Inl (InvalidDimensions (i + 1))
      else case toRGBA8 page of
             Inl msg \<Rightarrow> Inl (ToRGBA8Failed (i + 1) msg)
           | Inr None \<Rightarrow> Inl (EmptyPixelData (i + 1))
           | Inr (Some rgba) \<Rightarrow>
               (if rgba = [] then Inl (EmptyPixelData (i + 1))
                else case recognise (the (width page)) (the (height page)) rgba of
                       Inl e \<Rightarrow> Inl e
                     | Inr text \<Rightarrow> ocr_frames recognise (i + 1) rest (allText @ [trim text])))"

definition page_break :: ustring where
  "page_break = [10, 10] @ ustr ''--- PAGE BREAK ---'' @ [10, 10]"

fun join :: "ustring \<Rightarrow> ustring list \<Rightarrow> ustring" where
  "join sep [] = []"
| "join sep [t] = t"
| "join sep (t # ts) = t @ sep @ join sep ts"

definition ocrTiff ::
  "utif \<Rightarrow> (nat \<Rightarrow> nat \<Rightarrow> nat list \<Rightarrow> ocr_error + ustring) \<Rightarrow> ifd list
   \<Rightarrow> ocr_error + ustring" where
  "ocrTiff u recognise ifds =
     (if \<not> has_decode u then Inl DecodeUnavailable
      else if \<not> has_toRGBA8 u then Inl ToRGBA8Unavailable
      else if ifds = [] then Inl NoPages
      else if \<not> hasDecodeImages u \<and> \<not> hasDecodeImage u then Inl NoDecodeFunction
      else case ocr_frames recognise 0 ifds [] of
             Inl e \<Rightarrow> Inl e
           | Inr allText \<Rightarrow> Inr (join page_break (filter (\<lambda>t. t \<noteq> []) allText)))"

text \<open>
  A frame with a zero or missing dimension, or whose conversion returns no bytes; and a
  frame the loop gets through, with the text recognised on it.
\<close>

definition malformed :: "ifd \<Rightarrow> bool" where
  "malformed page =
     (falsy_dim (width page) \<or> falsy_dim (height page)
      \<or> toRGBA8 page = Inr None \<or> toRGBA8 page = Inr (Some []))"

definition frame_passes :: "(nat \<Rightarrow> nat \<Rightarrow> nat list \<Rightarrow> ocr_error + ustring) \<Rightarrow> ifd \<Rightarrow> bool" where
  "frame_passes recognise page =
     (\<not> malformed page
      \<and> (case toRGBA8 page of
            Inr (Some rgba) \<Rightarrow>
              (case recognise (the (width page)) (the (height page)) rgba of
                 Inr text \<Rightarrow> True | Inl e \<Rightarrow> False)
          | _ \<Rightarrow> False))"

section \<open>Properties of round2\<close>

lemma EPSILON_bounds: "0 < EPSILON" "EPSILON * 100 < 1 / 2"
  by (simp_all add: EPSILON_def)

lemma math_round_eqI:
  "of_int m - 1 / 2 \<le> x \<Longrightarrow> x < of_int m + 1 / 2 \<Longrightarrow> math_round x = of_int m"
proof -
  assume "of_int m - 1 / 2 \<le> x" "x < of_int m + 1 / 2"
  then have "\<lfloor>x + 1 / 2\<rfloor> = m" by (intro floor_unique) linarith+
  then show ?thesis by (simp add: math_round_def)
qed

lemma round2_fin_cents: "round2_fin (of_int m / 100) = of_int m / 100"
proof -
  have "(of_int m / 100 + EPSILON) * 100 = of_int m + EPSILON * 100"
    by (simp add: algebra_simps)
  moreover have "math_round (of_int m + EPSILON * 100) = of_int m"
    using EPSILON_bounds by (intro math_round_eqI) linarith+
  ultimately show ?thesis by (simp add: round2_fin_def)
qed

lemma round2_fin_is_cents: "\<exists>m::int. round2_fin n = of_int m / 100"
  by (auto simp: round2_fin_def math_round_def)

lemma round2_fin_idem: "round2_fin (round2_fin n) = round2_fin n"
proof -
  obtain m :: int where m: "round2_fin n = of_int m / 100"
    using round2_fin_is_cents by blast
  show ?thesis unfolding m by (rule round2_fin_cents)
qed

lemma round2_idem: "round2 (round2 n) = round2 n"
  by (cases n) (simp_all add: round2_def round2_fin_idem)

lemma math_round_near: "\<bar>math_round x - x\<bar> \<le> 1 / 2"
  unfolding math_round_def by linarith




section \<open>Reading a run of reconcileMath\<close>

lemma ebind_Inr [simp]: "ebind (Inr v) f = f v"
  by (simp add: ebind_def)

lemma ebind_Inl [simp]: "ebind (Inl e) f = Inl e"
  by (simp add: ebind_def)

lemma ebind_eq_Inr: "ebind m f = Inr y \<longleftrightarrow> (\<exists>v. m = Inr v \<and> f v = Inr y)"
  by (cases m) simp_all

lemma lookup_set_prop: "lookup (set_prop ps k v) k' = (if k' = k then v else lookup ps k')"
  by (simp add: lookup_def set_prop_def update_conv')

lemma map_of_set_prop: "map_of (set_prop ps k v) k' = (if k' = k then Some v else map_of ps k')"
  by (simp add: set_prop_def update_conv')

lemma toNumber_of_num: "toNumber nts (of_num n) = Inr n"
  by (cases n) (simp_all add: toNumber_def of_num_def)

lemma map_e_Inr: "map_e f xs = Inr ys \<Longrightarrow> list_all2 (\<lambda>x y. f x = Inr y) xs ys"
proof (induction xs arbitrary: ys)
  case Nil
  then show ?case by simp
next
  case (Cons x xs)
  then show ?case by (auto simp: ebind_eq_Inr)
qed

lemma map_e_fixed: "(\<And>x. x \<in> set xs \<Longrightarrow> f x = Inr x) \<Longrightarrow> map_e f xs = Inr xs"
  by (induction xs) simp_all

lemma repair_item_Inr_ex:
  assumes "repair_item nts it = Inr it'"
  shows "\<exists>qty0 u0 a0 qty unit amt.
           toNumber nts (field it ''qty'') = Inr qty0
         \<and> toNumber nts (field it ''unit_price'') = Inr u0
         \<and> toNumber nts (field it ''amount'') = Inr a0
         \<and> repair qty0 (round2 u0) (round2 a0) = (qty, unit, amt)
         \<and> it' = JObj [(''product_or_service'', nullish_null (field it ''product_or_service'')),
                       (''description'', nullish_null (field it ''description'')),
                       (''qty'', of_num qty), (''unit_price'', of_num unit),
                       (''amount'', of_num amt)]"
proof -
  from assms obtain xq qty0 xu u0 xa a0 p d where
    g: "get_prop it ''qty'' = Inr xq" "toNumber nts xq = Inr qty0"
       "get_prop it ''unit_price'' = Inr xu" "toNumber nts xu = Inr u0"
       "get_prop it ''amount'' = Inr xa" "toNumber nts xa = Inr a0"
       "get_prop it ''product_or_service'' = Inr p" "get_prop it ''description'' = Inr d"
    and r: "(let (qty, unit, amt) = repair qty0 (round2 u0) (round2 a0)
            in Inr (JObj [(''product_or_service'', nullish_null p),
                     (''description'', nullish_null d),
                     (''qty'', of_num qty),
                     (''unit_price'', of_num unit),
                     (''amount'', of_num amt)])) = (Inr it' :: error + jsval)"
    unfolding repair_item_def ebind_eq_Inr by blast
  obtain qty unit amt where e: "repair qty0 (round2 u0) (round2 a0) = (qty, unit, amt)"
    by (cases "repair qty0 (round2 u0) (round2 a0)") auto
  show ?thesis using g r e by (simp add: field_def)
qed

lemma reconcile_props_Inr_ex:
  assumes "reconcile_props nts ps = Inr ps'"
  shows "\<exists>n0 rate n2 n3 items s.
           toNumber nts (lookup ps ''subtotal'') = Inr n0
         \<and> toNumber nts (lookup ps ''tax_rate'') = Inr rate
         \<and> toNumber nts (lookup ps ''tax_amount'') = Inr n2
         \<and> toNumber nts (lookup ps ''total'') = Inr n3
         \<and> map_e (repair_item nts) (items_of (lookup ps ''line_items'')) = Inr items
         \<and> sum_amounts nts items 0 = Inr s
         \<and> lookup ps' ''line_items'' = JArr items []
         \<and> lookup ps' ''subtotal'' = of_num (derive_subtotal (round2 n0) (round2_fin s))
         \<and> lookup ps' ''tax_rate'' = of_num rate
         \<and> lookup ps' ''tax_amount'' =
             of_num (derive_tax_amount (round2 n2) (derive_subtotal (round2 n0) (round2_fin s)) rate)
         \<and> lookup ps' ''total'' =
             of_num (derive_total (round2 n3) (derive_subtotal (round2 n0) (round2_fin s))
               (derive_tax_amount (round2 n2) (derive_subtotal (round2 n0) (round2_fin s)) rate))
         \<and> (\<forall>k. k \<notin> {''subtotal'', ''tax_rate'', ''tax_amount'', ''total'', ''line_items''}
                \<longrightarrow> map_of ps' k = map_of ps k)"
  using assms unfolding reconcile_props_def Let_def
  apply (simp add: ebind_eq_Inr lookup_set_prop)
  apply (elim exE conjE)
  apply (intro exI conjI; assumption?)
  apply (auto simp: lookup_set_prop map_of_set_prop derive_subtotal_def derive_tax_amount_def derive_total_def split: option.splits)
  done

lemma repair_item_Inr:
  assumes "repair_item nts it = Inr it'"
  obtains qty0 u0 a0 qty unit amt where
    "toNumber nts (field it ''qty'') = Inr qty0"
    "toNumber nts (field it ''unit_price'') = Inr u0"
    "toNumber nts (field it ''amount'') = Inr a0"
    "repair qty0 (round2 u0) (round2 a0) = (qty, unit, amt)"
    "it' = JObj [(''product_or_service'', nullish_null (field it ''product_or_service'')),
                 (''description'', nullish_null (field it ''description'')),
                 (''qty'', of_num qty), (''unit_price'', of_num unit),
                 (''amount'', of_num amt)]"
  using repair_item_Inr_ex[OF assms] by (elim exE conjE) (rule that; assumption)

lemma reconcile_props_Inr:
  assumes "reconcile_props nts ps = Inr ps'"
  obtains n0 rate n2 n3 items s where
    "toNumber nts (lookup ps ''subtotal'') = Inr n0"
    "toNumber nts (lookup ps ''tax_rate'') = Inr rate"
    "toNumber nts (lookup ps ''tax_amount'') = Inr n2"
    "toNumber nts (lookup ps ''total'') = Inr n3"
    "map_e (repair_item nts) (items_of (lookup ps ''line_items'')) = Inr items"
    "sum_amounts nts items 0 = Inr s"
    "lookup ps' ''line_items'' = JArr items []"
    "lookup ps' ''subtotal'' = of_num (derive_subtotal (round2 n0) (round2_fin s))"
    "lookup ps' ''tax_rate'' = of_num rate"
    "lookup ps' ''tax_amount'' =
       of_num (derive_tax_amount (round2 n2) (derive_subtotal (round2 n0) (round2_fin s)) rate)"
    "lookup ps' ''total'' =
       of_num (derive_total (round2 n3) (derive_subtotal (round2 n0) (round2_fin s))
         (derive_tax_amount (round2 n2) (derive_subtotal (round2 n0) (round2_fin s)) rate))"
    "\<forall>k. k \<notin> {''subtotal'', ''tax_rate'', ''tax_amount'', ''total'', ''line_items''}
         \<longrightarrow> map_of ps' k = map_of ps k"
  using reconcile_props_Inr_ex[OF assms] by (elim exE conjE) (rule that; assumption)

section \<open>Document-level derivation\<close>

lemma reconcileMath_JObj:
  "reconcileMath nts (JObj ps) = Inr out \<longleftrightarrow> (\<exists>ps'. reconcile_props nts ps = Inr ps' \<and> out = JObj ps')"
  by (auto simp: reconcileMath_def ebind_eq_Inr)

lemma repaired_amount:
  assumes "repair_item nts it = Inr it'"
  shows "\<exists>amt. get_prop it' ''amount'' = Inr (of_num amt)
             \<and> item_amount it' = (case amt of None \<Rightarrow> 0 | Some r \<Rightarrow> r)"
proof -
  from assms obtain p d qty unit amt where
    "it' = JObj [(''product_or_service'', p), (''description'', d),
                 (''qty'', of_num qty), (''unit_price'', of_num unit), (''amount'', of_num amt)]"
    by (rule repair_item_Inr)
  then have "get_prop it' ''amount'' = Inr (of_num amt)
           \<and> item_amount it' = (case amt of None \<Rightarrow> 0 | Some r \<Rightarrow> r)"
    by (cases amt) (simp_all add: lookup_def item_amount_def field_def of_num_def)
  then show ?thesis by blast
qed

lemma sum_amounts_repaired:
  "list_all2 (\<lambda>x y. repair_item nts x = Inr y) xs ys \<Longrightarrow>
   sum_amounts nts ys s = Inr (s + sum_list (map item_amount ys))"
proof (induction xs ys arbitrary: s rule: list_all2_induct)
  case Nil
  then show ?case by simp
next
  case (Cons x xs y ys)
  from repaired_amount[OF Cons.hyps(1)] obtain amt where
    a: "get_prop y ''amount'' = Inr (of_num amt)"
       "item_amount y = (case amt of None \<Rightarrow> 0 | Some r \<Rightarrow> r)" by blast
  show ?case
    using a Cons.IH by (cases amt) (simp_all add: toNumber_of_num add.assoc)
qed





section \<open>Line items and the frame of reconcileMath\<close>

lemma reconcileMath_items:
  assumes "reconcileMath nts (JObj ps) = Inr (JObj ps')"
  shows "list_all2 (\<lambda>it it'. repair_item nts it = Inr it')
           (items_of (lookup ps ''line_items'')) (items_of (lookup ps' ''line_items''))"
proof -
  from assms have run: "reconcile_props nts ps = Inr ps'"
    unfolding reconcileMath_JObj by simp
  from run obtain items where
    "map_e (repair_item nts) (items_of (lookup ps ''line_items'')) = Inr items"
    "lookup ps' ''line_items'' = JArr items []"
    by (rule reconcile_props_Inr)
  then show ?thesis using map_e_Inr by (simp add: items_of_def)
qed

lemma filter_set_prop:
  "k \<in> K \<Longrightarrow> filter (\<lambda>kv. fst kv \<notin> K) (set_prop ps k v) = filter (\<lambda>kv. fst kv \<notin> K) ps"
  unfolding set_prop_def by (induction ps) auto

lemma reconcile_props_others:
  assumes "reconcile_props nts ps = Inr ps'"
    and K: "{''subtotal'', ''tax_rate'', ''tax_amount'', ''total'', ''line_items''} \<subseteq> K"
  shows "filter (\<lambda>kv. fst kv \<notin> K) ps' = filter (\<lambda>kv. fst kv \<notin> K) ps"
proof -
  have k: "''subtotal'' \<in> K" "''tax_rate'' \<in> K" "''tax_amount'' \<in> K" "''total'' \<in> K"
    "''line_items'' \<in> K"
    using K by blast+
  show ?thesis
    using assms(1) unfolding reconcile_props_def Let_def
    by (auto simp: ebind_eq_Inr filter_set_prop[OF k(1)] filter_set_prop[OF k(2)]
        filter_set_prop[OF k(3)] filter_set_prop[OF k(4)] filter_set_prop[OF k(5)])
qed

text \<open>
  C9 (amended). In every line item \<open>reconcileMath\<close> returns, \<open>product_or_service\<close> and
  \<open>description\<close> are never \<open>undefined\<close>; they are \<open>null\<close> exactly when the input field is
  \<open>null\<close> or absent, and any other input value, the empty string included, is returned
  unchanged.
\<close>

theorem descriptive_fields_nullish:
  assumes "reconcileMath nts (JObj ps) = Inr (JObj ps')"
    and "i < length (items_of (lookup ps ''line_items''))"
    and "k = ''product_or_service'' \<or> k = ''description''"
  shows "field (items_of (lookup ps' ''line_items'') ! i) k \<noteq> JUndefined
       \<and> field (items_of (lookup ps' ''line_items'') ! i) k =
           (if field (items_of (lookup ps ''line_items'') ! i) k = JUndefined
             \<or> field (items_of (lookup ps ''line_items'') ! i) k = JNull
            then JNull else field (items_of (lookup ps ''line_items'') ! i) k)"
proof -
  have "repair_item nts (items_of (lookup ps ''line_items'') ! i)
          = Inr (items_of (lookup ps' ''line_items'') ! i)"
    using reconcileMath_items[OF assms(1)] assms(2) by (simp add: list_all2_conv_all_nth)
  then obtain q u a where
    "items_of (lookup ps' ''line_items'') ! i =
       JObj [(''product_or_service'',
                nullish_null (field (items_of (lookup ps ''line_items'') ! i) ''product_or_service'')),
             (''description'',
                nullish_null (field (items_of (lookup ps ''line_items'') ! i) ''description'')),
             (''qty'', q), (''unit_price'', u), (''amount'', a)]"
    by (rule repair_item_Inr)
  then show ?thesis using assms(3)
    by (auto simp: field_def lookup_def nullish_null_def)
qed

theorem descriptive_fields_nullish_witness:
  "reconcileMath int_string
     (JObj [(''line_items'', JArr [JObj [(''product_or_service'', JStr ''Tea'')]] [])])
   = Inr (JObj [(''line_items'',
                 JArr [JObj [(''product_or_service'', JStr ''Tea''), (''description'', JNull),
                             (''qty'', JNull), (''unit_price'', JNull), (''amount'', JNull)]] []),
                (''subtotal'', JNull), (''tax_rate'', JNull), (''tax_amount'', JNull),
                (''total'', JNull)])
   \<and> field (JObj [(''product_or_service'', JStr ''Tea''), (''description'', JNull),
                  (''qty'', JNull), (''unit_price'', JNull), (''amount'', JNull)])
        ''description'' = JNull"
proof -
  have run: "reconcileMath int_string
     (JObj [(''line_items'', JArr [JObj [(''product_or_service'', JStr ''Tea'')]] [])])
   = Inr (JObj [(''line_items'',
                 JArr [JObj [(''product_or_service'', JStr ''Tea''), (''description'', JNull),
                             (''qty'', JNull), (''unit_price'', JNull), (''amount'', JNull)]] []),
                (''subtotal'', JNull), (''tax_rate'', JNull), (''tax_amount'', JNull),
                (''total'', JNull)])"
    by code_simp
  from descriptive_fields_nullish[OF run, of 0 "''description''"] show ?thesis
    using run by (simp add: lookup_def items_of_def field_def)
qed

text \<open>
  C9 as stated fails: an empty string in \<open>product_or_service\<close> is returned as the empty
  string, since \<open>??\<close> replaces \<open>null\<close> and \<open>undefined\<close> only.
\<close>

theorem empty_description_counterexample:
  "reconcileMath int_string
     (JObj [(''line_items'', JArr [JObj [(''product_or_service'', JStr '''')]] [])])
   = Inr (JObj [(''line_items'',
                 JArr [JObj [(''product_or_service'', JStr ''''), (''description'', JNull),
                             (''qty'', JNull), (''unit_price'', JNull), (''amount'', JNull)]] []),
                (''subtotal'', JNull), (''tax_rate'', JNull), (''tax_amount'', JNull),
                (''total'', JNull)])"
  by code_simp

text \<open>
  C10. \<open>reconcileMath\<close> leaves every top-level property other than \<open>subtotal\<close>, \<open>tax_rate\<close>,
  \<open>tax_amount\<close>, \<open>total\<close> and \<open>line_items\<close> as it was (same value, same place), and every
  line item it returns has exactly the keys \<open>product_or_service\<close>, \<open>description\<close>, \<open>qty\<close>,
  \<open>unit_price\<close> and \<open>amount\<close>.
\<close>

theorem reconcile_frame:
  assumes "reconcileMath nts (JObj ps) = Inr out"
  shows "\<exists>ps'. out = JObj ps'
       \<and> (\<forall>k. k \<notin> {''subtotal'', ''tax_rate'', ''tax_amount'', ''total'', ''line_items''}
              \<longrightarrow> map_of ps' k = map_of ps k)
       \<and> filter (\<lambda>kv. fst kv \<notin> {''subtotal'', ''tax_rate'', ''tax_amount'', ''total'', ''line_items''}) ps'
         = filter (\<lambda>kv. fst kv \<notin> {''subtotal'', ''tax_rate'', ''tax_amount'', ''total'', ''line_items''}) ps
       \<and> (\<forall>it' \<in> set (items_of (lookup ps' ''line_items'')).
            \<exists>p d q u a. it' = JObj [(''product_or_service'', p), (''description'', d),
                                     (''qty'', q), (''unit_price'', u), (''amount'', a)])"
proof -
  from assms obtain ps' where run: "reconcile_props nts ps = Inr ps'" and out: "out = JObj ps'"
    unfolding reconcileMath_JObj by (elim exE conjE)
  from run have others: "\<forall>k. k \<notin> {''subtotal'', ''tax_rate'', ''tax_amount'', ''total'', ''line_items''}
         \<longrightarrow> map_of ps' k = map_of ps k"
    by (rule reconcile_props_Inr)
  have flt: "filter (\<lambda>kv. fst kv \<notin> {''subtotal'', ''tax_rate'', ''tax_amount'', ''total'', ''line_items''}) ps'
         = filter (\<lambda>kv. fst kv \<notin> {''subtotal'', ''tax_rate'', ''tax_amount'', ''total'', ''line_items''}) ps"
    by (rule reconcile_props_others[OF run]) simp
  have all2: "list_all2 (\<lambda>it it'. repair_item nts it = Inr it')
           (items_of (lookup ps ''line_items'')) (items_of (lookup ps' ''line_items''))"
    using assms out by (intro reconcileMath_items) simp
  have keys: "\<exists>p d q u a. it' = JObj [(''product_or_service'', p), (''description'', d),
                                     (''qty'', q), (''unit_price'', u), (''amount'', a)]"
    if "it' \<in> set (items_of (lookup ps' ''line_items''))" for it'
  proof -
    from that all2 obtain it where "repair_item nts it = Inr it'"
      by (auto simp: list_all2_conv_all_nth in_set_conv_nth)
    then obtain p d q u a where "it' = JObj [(''product_or_service'', p), (''description'', d),
                                     (''qty'', q), (''unit_price'', u), (''amount'', a)]"
      by (rule repair_item_Inr)
    then show ?thesis by (intro exI)
  qed
  show ?thesis
    apply (rule exI[of _ ps'])
    apply (intro conjI ballI)
       apply (rule out)
      apply (rule others)
     apply (rule flt)
    apply (erule keys)
    done
qed

theorem reconcile_frame_witness:
  "reconcileMath int_string
     (JObj [(''doc_type'', JStr ''invoice''),
            (''line_items'', JArr [JObj [(''qty'', JNum (Fin 2)), (''unit_price'', JNum (Fin 3)),
                                         (''sku'', JStr ''A1'')]] []),
            (''notes'', JNull)])
   = Inr (JObj [(''doc_type'', JStr ''invoice''),
            (''line_items'', JArr [JObj [(''product_or_service'', JNull), (''description'', JNull),
                                         (''qty'', JNum (Fin 2)), (''unit_price'', JNum (Fin 3)),
                                         (''amount'', JNum (Fin 6))]] []),
            (''notes'', JNull), (''subtotal'', JNum (Fin 6)), (''tax_rate'', JNull),
            (''tax_amount'', JNull), (''total'', JNull)])
   \<and> map_of [(''doc_type'', JStr ''invoice''),
            (''line_items'', JArr [JObj [(''product_or_service'', JNull), (''description'', JNull),
                                         (''qty'', JNum (Fin 2)), (''unit_price'', JNum (Fin 3)),
                                         (''amount'', JNum (Fin 6))]] []),
            (''notes'', JNull), (''subtotal'', JNum (Fin 6)), (''tax_rate'', JNull),
            (''tax_amount'', JNull), (''total'', JNull)] ''doc_type''
     = Some (JStr ''invoice'')"
proof -
  have run: "reconcileMath int_string
     (JObj [(''doc_type'', JStr ''invoice''),
            (''line_items'', JArr [JObj [(''qty'', JNum (Fin 2)), (''unit_price'', JNum (Fin 3)),
                                         (''sku'', JStr ''A1'')]] []),
            (''notes'', JNull)])
   = Inr (JObj [(''doc_type'', JStr ''invoice''),
            (''line_items'', JArr [JObj [(''product_or_service'', JNull), (''description'', JNull),
                                         (''qty'', JNum (Fin 2)), (''unit_price'', JNum (Fin 3)),
                                         (''amount'', JNum (Fin 6))]] []),
            (''notes'', JNull), (''subtotal'', JNum (Fin 6)), (''tax_rate'', JNull),
            (''tax_amount'', JNull), (''total'', JNull)])"
    by code_simp
  from reconcile_frame[OF run] show ?thesis using run by simp
qed

text \<open>
  C8 fails on the code: a \<open>null\<close> element of \<open>line_items\<close> makes the callback read \<open>it.qty\<close>
  of \<open>null\<close>, and a numeric field holding an object with an own \<open>toString\<close> property
  makes \<open>String(x)\<close> throw; both are TypeErrors, not \<open>null\<close> fields.
\<close>

theorem reconcileMath_throws:
  "reconcileMath int_string (JObj [(''line_items'', JArr [JNull] [])]) = Inl TypeError
   \<and> reconcileMath int_string (JObj [(''total'', JObj [(''toString'', JNull)])]) = Inl TypeError"
  by code_simp

theorem reconcileMath_throws_witness:
  "(\<exists>e. reconcileMath int_string (JObj [(''line_items'', JArr [JNull] [])]) = Inl e)
   \<and> (\<exists>e. reconcileMath int_string (JObj [(''total'', JObj [(''toString'', JNull)])]) = Inl e)"
  using reconcileMath_throws by simp

section \<open>Filling a missing quantity\<close>

lemma round2_fin_near: "\<bar>round2_fin n - n\<bar> \<le> 6 / 1000"
proof -
  have "\<bar>math_round ((n + EPSILON) * 100) - (n + EPSILON) * 100\<bar> \<le> 1 / 2"
    by (rule math_round_near)
  then have "\<bar>round2_fin n - (n + EPSILON)\<bar> \<le> 1 / 200"
    unfolding round2_fin_def by (simp add: field_simps abs_if split: if_splits)
  moreover have "EPSILON \<le> 1 / 1000" "0 < EPSILON" by (simp_all add: EPSILON_def)
  ultimately show ?thesis by linarith
qed

lemma no_integer_branch_after_round:
  assumes u: "u \<noteq> 0"
    and far: "2 / 100 \<le> \<bar>a / u - qInt\<bar>"
    and near: "\<bar>round2_fin (qInt * u) - a\<bar> \<le> 1 / 10"
  shows "\<bar>round2_fin (round2_fin (a / u) * u) - a\<bar> \<le> 5 / 100"
proof -
  define q where "q = a / u"
  have a: "a = q * u" using u by (simp add: q_def)
  have "\<bar>qInt * u - a\<bar> \<le> \<bar>qInt * u - round2_fin (qInt * u)\<bar> + \<bar>round2_fin (qInt * u) - a\<bar>"
    by linarith
  also have "\<dots> \<le> 6 / 1000 + 1 / 10"
    using round2_fin_near[of "qInt * u"] near by linarith
  finally have 1: "\<bar>qInt * u - a\<bar> \<le> 106 / 1000" by simp
  have "qInt * u - a = (qInt - q) * u" by (simp add: a algebra_simps)
  then have 2: "\<bar>qInt - q\<bar> * \<bar>u\<bar> \<le> 106 / 1000" using 1 by (simp add: abs_mult)
  have "1 / 50 \<le> \<bar>qInt - q\<bar>" using far unfolding q_def by (simp add: abs_minus_commute)
  then have "(1 / 50) * \<bar>u\<bar> \<le> \<bar>qInt - q\<bar> * \<bar>u\<bar>"
    by (intro mult_right_mono) simp_all
  with 2 have ub: "\<bar>u\<bar> \<le> 53 / 10" by linarith
  have "round2_fin q * u - a = (round2_fin q - q) * u" by (simp add: a algebra_simps)
  then have "\<bar>round2_fin q * u - a\<bar> = \<bar>round2_fin q - q\<bar> * \<bar>u\<bar>" by (simp add: abs_mult)
  also have "\<dots> \<le> (6 / 1000) * (53 / 10)"
    using round2_fin_near[of q] ub by (intro mult_mono) simp_all
  finally have 3: "\<bar>round2_fin q * u - a\<bar> \<le> 318 / 10000" by simp
  have "\<bar>round2_fin (round2_fin q * u) - a\<bar>
        \<le> \<bar>round2_fin (round2_fin q * u) - round2_fin q * u\<bar> + \<bar>round2_fin q * u - a\<bar>"
    by linarith
  also have "\<dots> \<le> 6 / 1000 + 318 / 10000"
    using round2_fin_near[of "round2_fin q * u"] 3 by linarith
  finally show ?thesis unfolding q_def by simp
qed

lemma fix_item_after_snap:
  assumes "u \<noteq> 0"
  shows "fst (fix_item (Some (snap_qty a u)) (Some u) (Some a)) = Some (snap_qty a u)"
proof (cases "\<bar>a / u - math_round (a / u)\<bar> < 2 / 100")
  case True
  then have "snap_qty a u = math_round (a / u)" by (simp add: snap_qty_def Let_def)
  then show ?thesis using assms
    by (simp add: fix_item_def js_div_def Let_def)
next
  case False
  then have s: "snap_qty a u = round2_fin (a / u)" by (simp add: snap_qty_def Let_def)
  have "approxEqual (round2 (Some (round2_fin (a / u) * u))) (Some a) (5 / 100)"
    if "approxEqual (round2 (Some (math_round (a / u) * u))) (Some a) (1 / 10)"
    using no_integer_branch_after_round[OF assms, of a "math_round (a / u)"] False that
    by (simp add: approxEqual_def round2_def)
  then show ?thesis using assms
    by (auto simp: fix_item_def js_div_def Let_def s)
qed

lemma repair_fill_qty:
  assumes "u \<noteq> 0"
  shows "fst (repair None (Some u) (Some a)) = Some (snap_qty a u)"
proof -
  obtain q' u' where f: "fix_item (Some (snap_qty a u)) (Some u) (Some a) = (q', u')"
    by (cases "fix_item (Some (snap_qty a u)) (Some u) (Some a)") simp
  with fix_item_after_snap[OF assms, of a] have "q' = Some (snap_qty a u)" by simp
  then show ?thesis using assms f
    by (simp add: repair_def fill_amount_def fill_unit_def fill_qty_def Let_def)
qed




section \<open>Repairing a repaired line item\<close>

lemma fix_item_idem:
  assumes "fix_item qty unit amt = (qty', unit')" and "\<not> takes_last_resort qty unit amt"
  shows "fix_item qty' unit' amt = (qty', unit')"
proof (cases "(qty', unit') = (qty, unit)")
  case True
  then show ?thesis using assms(1) by simp
next
  case False
  then obtain q0 u a where k: "qty = Some q0" "unit = Some u" "amt = Some a"
    using assms(1) by (cases qty; cases unit; cases amt) (auto simp: fix_item_def)
  show ?thesis
  proof (cases "u = 0")
    case True
    then show ?thesis using assms False
      by (auto simp: k fix_item_def takes_last_resort_def js_div_def last_resort_def Let_def
          split: if_splits)
  next
    case u: False
    then have d: "js_div a u = Fin (a / u)" by (simp add: js_div_def)
    show ?thesis using assms False u
      by (auto simp: k fix_item_def takes_last_resort_def d last_resort_def Let_def
          split: if_splits)
  qed
qed

lemma fix_item_known:
  "fix_item (Some q0) (Some u) (Some a) = (qty', unit') \<Longrightarrow> qty' \<noteq> None \<and> unit' \<noteq> None"
  by (auto simp: fix_item_def last_resort_def round2_def Let_def split: if_splits jsnum.splits)

lemma fix_item_unknown:
  "qty = None \<or> unit = None \<or> amt = None \<Longrightarrow> fix_item qty unit amt = (qty, unit)"
  by (cases qty; cases unit; cases amt) (auto simp: fix_item_def)

lemma fills_saturated:
  assumes "amt = fill_amount q0 u0 a0" "unit1 = fill_unit q0 u0 amt" "qty1 = fill_qty q0 unit1 amt"
  shows "fill_amount qty1 unit1 amt = amt \<and> fill_unit qty1 unit1 amt = unit1
       \<and> fill_qty qty1 unit1 amt = qty1"
  unfolding assms
  by (cases q0; cases u0; cases a0)
     (auto simp: fill_amount_def fill_unit_def fill_qty_def round2_def)

lemma fills_known:
  "fill_amount (Some q) (Some u) (Some a) = Some a"
  "fill_unit (Some q) (Some u) (Some a) = Some u"
  "fill_qty (Some q) (Some u) (Some a) = Some q"
  by (simp_all add: fill_amount_def fill_unit_def fill_qty_def)

lemma repair_idem:
  assumes r: "repair q0 u0 a0 = (q, u, a)"
    and n: "\<not> takes_last_resort
              (fill_qty q0 (fill_unit q0 u0 (fill_amount q0 u0 a0)) (fill_amount q0 u0 a0))
              (fill_unit q0 u0 (fill_amount q0 u0 a0)) (fill_amount q0 u0 a0)"
  shows "repair q u a = (q, u, a)"
proof -
  define amt where "amt = fill_amount q0 u0 a0"
  define unit1 where "unit1 = fill_unit q0 u0 amt"
  define qty1 where "qty1 = fill_qty q0 unit1 amt"
  from r have f: "fix_item qty1 unit1 amt = (q, u)" and a: "a = amt"
    by (simp_all add: repair_def Let_def amt_def unit1_def qty1_def split: prod.splits)
  from n have n': "\<not> takes_last_resort qty1 unit1 amt"
    by (simp add: amt_def unit1_def qty1_def)
  have i: "fix_item q u amt = (q, u)" by (rule fix_item_idem[OF f n'])
  have s: "fill_amount q u amt = amt \<and> fill_unit q u amt = u \<and> fill_qty q u amt = q"
  proof (cases "qty1 = None \<or> unit1 = None \<or> amt = None")
    case True
    then have "(q, u) = (qty1, unit1)" using f fix_item_unknown by simp
    then show ?thesis using fills_saturated[OF amt_def unit1_def qty1_def] by simp
  next
    case False
    then obtain x y z where k: "qty1 = Some x" "unit1 = Some y" "amt = Some z" by auto
    with f fix_item_known obtain x' y' where "q = Some x'" "u = Some y'" by fastforce
    then show ?thesis by (simp add: k fills_known)
  qed
  show ?thesis unfolding a using s i by (simp add: repair_def Let_def)
qed

lemma last_resort_cents: "round2 (Some u) = Some u \<Longrightarrow> round2 (last_resort q0 u a) = last_resort q0 u a"
  by (simp add: last_resort_def round2_idem)

lemma repair_cents:
  assumes "repair q0 (round2 u0) (round2 a0) = (q, u, a)"
  shows "round2 u = u \<and> round2 a = a"
proof -
  define amt where "amt = fill_amount q0 (round2 u0) (round2 a0)"
  define unit1 where "unit1 = fill_unit q0 (round2 u0) amt"
  define qty1 where "qty1 = fill_qty q0 unit1 amt"
  from assms have f: "fix_item qty1 unit1 amt = (q, u)" and a: "a = amt"
    by (simp_all add: repair_def Let_def amt_def unit1_def qty1_def split: prod.splits)
  have ca: "round2 amt = amt"
    unfolding amt_def fill_amount_def
    by (cases q0; cases "round2 u0"; cases "round2 a0"; simp add: round2_idem)
       (metis round2_idem)+
  have cu: "round2 unit1 = unit1"
    unfolding unit1_def fill_unit_def
    by (cases q0; cases "round2 u0"; cases amt; simp add: round2_idem)
       (metis round2_idem)+
  have "round2 u = u"
  proof (cases "u = unit1")
    case True
    then show ?thesis using cu by simp
  next
    case False
    then obtain x y z where k: "qty1 = Some x" "unit1 = Some y" "amt = Some z"
      using f by (cases qty1; cases unit1; cases amt) (auto simp: fix_item_def)
    then have "u = last_resort x y z" using f False
      by (auto simp: fix_item_def Let_def split: if_splits jsnum.splits)
    then show ?thesis using last_resort_cents cu k by simp
  qed
  then show ?thesis using ca a by simp
qed

section \<open>Applying reconcileMath twice\<close>

lemma nullish_null_idem: "nullish_null (nullish_null v) = nullish_null v"
  by (simp add: nullish_null_def)

lemma repair_item_idem:
  assumes "repair_item nts it = Inr it'" and "\<not> reaches_last_resort nts it"
  shows "repair_item nts it' = Inr it'"
proof -
  from assms(1) obtain qty0 u0 a0 qty unit amt where
    n: "toNumber nts (field it ''qty'') = Inr qty0"
       "toNumber nts (field it ''unit_price'') = Inr u0"
       "toNumber nts (field it ''amount'') = Inr a0"
    and r: "repair qty0 (round2 u0) (round2 a0) = (qty, unit, amt)"
    and o: "it' = JObj [(''product_or_service'', nullish_null (field it ''product_or_service'')),
                       (''description'', nullish_null (field it ''description'')),
                       (''qty'', of_num qty), (''unit_price'', of_num unit),
                       (''amount'', of_num amt)]"
    by (rule repair_item_Inr)
  from assms(2) have nl: "\<not> takes_last_resort
      (fill_qty qty0 (fill_unit qty0 (round2 u0) (fill_amount qty0 (round2 u0) (round2 a0)))
         (fill_amount qty0 (round2 u0) (round2 a0)))
      (fill_unit qty0 (round2 u0) (fill_amount qty0 (round2 u0) (round2 a0)))
      (fill_amount qty0 (round2 u0) (round2 a0))"
    by (simp add: reaches_last_resort_def n Let_def)
  have i: "repair qty unit amt = (qty, unit, amt)" by (rule repair_idem[OF r nl])
  have c: "round2 unit = unit" "round2 amt = amt" using repair_cents[OF r] by simp_all
  show ?thesis
    unfolding o repair_item_def
    by (simp add: lookup_def toNumber_of_num c i nullish_null_idem)
qed

lemma lookup_Some: "lookup ps k = v \<Longrightarrow> v \<noteq> JUndefined \<Longrightarrow> map_of ps k = Some v"
  by (auto simp: lookup_def split: option.splits)

lemma set_prop_same: "lookup ps k = v \<Longrightarrow> v \<noteq> JUndefined \<Longrightarrow> set_prop ps k v = ps"
  unfolding set_prop_def by (rule update_triv) (rule lookup_Some)

lemma of_num_defined: "of_num n \<noteq> JUndefined"
  by (cases n) (simp_all add: of_num_def)

lemma derive_subtotal_fixed:
  "derive_subtotal (derive_subtotal x rs) rs = derive_subtotal x rs"
  "\<not> (derive_subtotal x rs = None \<and> rs \<noteq> 0)"
  by (auto simp: derive_subtotal_def)

lemma derive_subtotal_cents:
  "round2 (derive_subtotal (round2 x) (round2_fin s)) = derive_subtotal (round2 x) (round2_fin s)"
  by (simp add: derive_subtotal_def round2_idem) (simp add: round2_def round2_fin_idem)

lemma derive_tax_amount_fixed:
  "derive_tax_amount (derive_tax_amount x sub rate) sub rate = derive_tax_amount x sub rate"
  "\<not> (derive_tax_amount x sub rate = None \<and> sub \<noteq> None \<and> rate \<noteq> None)"
  by (cases x; cases sub; cases rate; simp add: derive_tax_amount_def round2_def)+

lemma derive_tax_amount_cents:
  "round2 (derive_tax_amount (round2 x) sub rate) = derive_tax_amount (round2 x) sub rate"
proof -
  have "derive_tax_amount (round2 x) sub rate = round2 x
      \<or> (\<exists>y. derive_tax_amount (round2 x) sub rate = round2 (Some y))"
    by (auto simp: derive_tax_amount_def split: option.splits)
  then show ?thesis by (metis round2_idem)
qed

lemma derive_total_fixed:
  "derive_total (derive_total x sub tax) sub tax = derive_total x sub tax"
  "\<not> (derive_total x sub tax = None \<and> sub \<noteq> None \<and> tax \<noteq> None)"
  by (cases x; cases sub; cases tax; simp add: derive_total_def round2_def)+

lemma derive_total_cents:
  "round2 (derive_total (round2 x) sub tax) = derive_total (round2 x) sub tax"
proof -
  have "derive_total (round2 x) sub tax = round2 x
      \<or> (\<exists>y. derive_total (round2 x) sub tax = round2 (Some y))"
    by (auto simp: derive_total_def split: option.splits)
  then show ?thesis by (metis round2_idem)
qed

lemma reconcile_props_idem:
  assumes run: "reconcile_props nts ps = Inr ps'"
    and nl: "\<forall>it \<in> set (items_of (lookup ps ''line_items'')). \<not> reaches_last_resort nts it"
  shows "reconcile_props nts ps' = Inr ps'"
proof -
  from run obtain n0 rate n2 n3 items s where
    items: "map_e (repair_item nts) (items_of (lookup ps ''line_items'')) = Inr items"
    and s: "sum_amounts nts items 0 = Inr s"
    and li: "lookup ps' ''line_items'' = JArr items []"
    and v: "lookup ps' ''subtotal'' = of_num (derive_subtotal (round2 n0) (round2_fin s))"
       "lookup ps' ''tax_rate'' = of_num rate"
       "lookup ps' ''tax_amount'' =
             of_num (derive_tax_amount (round2 n2) (derive_subtotal (round2 n0) (round2_fin s)) rate)"
       "lookup ps' ''total'' =
             of_num (derive_total (round2 n3) (derive_subtotal (round2 n0) (round2_fin s))
               (derive_tax_amount (round2 n2) (derive_subtotal (round2 n0) (round2_fin s)) rate))"
    by (rule reconcile_props_Inr)
  define sub1 where "sub1 = derive_subtotal (round2 n0) (round2_fin s)"
  define tax1 where "tax1 = derive_tax_amount (round2 n2) sub1 rate"
  define tot1 where "tot1 = derive_total (round2 n3) sub1 tax1"
  have L: "lookup ps' ''subtotal'' = of_num sub1" "lookup ps' ''tax_rate'' = of_num rate"
    "lookup ps' ''tax_amount'' = of_num tax1" "lookup ps' ''total'' = of_num tot1"
    using v by (simp_all add: sub1_def tax1_def tot1_def)
  have S: "set_prop ps' ''subtotal'' (of_num sub1) = ps'"
    "set_prop ps' ''tax_rate'' (of_num rate) = ps'"
    "set_prop ps' ''tax_amount'' (of_num tax1) = ps'"
    "set_prop ps' ''total'' (of_num tot1) = ps'"
    "set_prop ps' ''line_items'' (JArr items []) = ps'"
    using L li by (simp_all add: set_prop_same of_num_defined)
  have all2: "list_all2 (\<lambda>x y. repair_item nts x = Inr y) (items_of (lookup ps ''line_items'')) items"
    by (rule map_e_Inr[OF items])
  have fixed: "map_e (repair_item nts) items = Inr items"
  proof (rule map_e_fixed)
    fix y assume "y \<in> set items"
    then obtain j where j: "j < length items" "y = items ! j"
      by (auto simp: in_set_conv_nth)
    have len: "length (items_of (lookup ps ''line_items'')) = length items"
      by (rule list_all2_lengthD[OF all2])
    have "repair_item nts (items_of (lookup ps ''line_items'') ! j) = Inr y"
      using list_all2_nthD2[OF all2 j(1)] j(2) by simp
    moreover have "items_of (lookup ps ''line_items'') ! j \<in> set (items_of (lookup ps ''line_items''))"
      using j(1) len by simp
    ultimately show "repair_item nts y = Inr y" using nl repair_item_idem by blast
  qed
  have c: "round2 sub1 = sub1" "round2 tax1 = tax1" "round2 tot1 = tot1"
    unfolding sub1_def tax1_def tot1_def
    by (rule derive_subtotal_cents derive_tax_amount_cents derive_total_cents)+
  have d: "derive_subtotal sub1 (round2_fin s) = sub1"
    "derive_tax_amount tax1 sub1 rate = tax1"
    "derive_total tot1 sub1 tax1 = tot1"
    unfolding sub1_def tax1_def tot1_def
    by (rule derive_subtotal_fixed derive_tax_amount_fixed derive_total_fixed)+
  have e: "(sub1 = None \<and> round2_fin s \<noteq> 0) = False"
    "(tax1 = None \<and> sub1 \<noteq> None \<and> rate \<noteq> None) = False"
    "(tot1 = None \<and> sub1 \<noteq> None \<and> tax1 \<noteq> None) = False"
    unfolding sub1_def tax1_def tot1_def
    using derive_subtotal_fixed(2) derive_tax_amount_fixed(2) derive_total_fixed(2) by blast+
  have io: "items_of (JArr items []) = items" by (simp add: items_of_def)
  show ?thesis
    unfolding reconcile_props_def
    by (simp only: L toNumber_of_num ebind_Inr Let_def c S li io fixed s d e if_False)
qed




section \<open>The score of a recognised text\<close>

lemma dropWhile_snoc: "\<not> P c \<Longrightarrow> dropWhile P (t @ [c]) = dropWhile P t @ [c]"
  by (induction t) simp_all

lemma trim_snoc: "\<not> is_white_space c \<Longrightarrow> trim (t @ [c]) = dropWhile is_white_space t @ [c]"
  by (simp add: trim_def dropWhile_snoc)

lemma trim_decomp:
  "\<exists>w. dropWhile is_white_space t = trim t @ w \<and> (\<forall>c \<in> set w. is_white_space c)"
proof -
  define d where "d = dropWhile is_white_space t"
  have "rev d = takeWhile is_white_space (rev d) @ dropWhile is_white_space (rev d)" by simp
  then have "d = rev (dropWhile is_white_space (rev d)) @ rev (takeWhile is_white_space (rev d))"
    by (metis rev_append rev_rev_ident)
  moreover have "\<forall>c \<in> set (rev (takeWhile is_white_space (rev d))). is_white_space c"
    by (auto dest: set_takeWhileD)
  ultimately show ?thesis unfolding trim_def d_def by blast
qed

lemma white_space_plain:
  "is_white_space c \<Longrightarrow> \<not> is_letter c \<and> \<not> is_digit16 c \<and> c \<noteq> replacement_glyph"
  by (auto simp: is_white_space_def is_letter_def is_digit16_def replacement_glyph_def)

lemma count_white_space:
  assumes "\<forall>c \<in> set w. is_white_space c"
  shows "count_matches is_letter w = 0" "count_matches is_digit16 w = 0"
    "count_matches (\<lambda>c. c = replacement_glyph) w = 0"
  using assms white_space_plain by (auto simp: count_matches_def filter_empty_conv)

lemma count_matches_append: "count_matches P (a @ b) = count_matches P a + count_matches P b"
  by (simp add: count_matches_def)

text \<open>The score as a function of the trimmed text; it is 0 on the empty text.\<close>

lemma score_trimmed:
  "scoreOcrText text =
     of_nat (count_matches is_letter (trim text)) + of_nat (count_matches is_digit16 (trim text))
     - of_nat (count_matches (\<lambda>c. c = replacement_glyph) (trim text)) * 5
     + min 200 (of_nat (length (trim text)) / 5)"
  by (simp add: scoreOcrText_def Let_def count_matches_def)

lemma score_snoc:
  assumes "\<not> is_white_space c"
  obtains n where
    "scoreOcrText (t @ [c]) =
       of_nat (count_matches is_letter (trim t)) + of_nat (count_matches is_letter [c])
     + of_nat (count_matches is_digit16 (trim t)) + of_nat (count_matches is_digit16 [c])
     - (of_nat (count_matches (\<lambda>c. c = replacement_glyph) (trim t))
        + of_nat (count_matches (\<lambda>c. c = replacement_glyph) [c])) * 5
     + min 200 (of_nat (length (trim t) + n + 1) / 5)"
proof -
  obtain w where w: "dropWhile is_white_space t = trim t @ w" "\<forall>c \<in> set w. is_white_space c"
    using trim_decomp by blast
  have "trim (t @ [c]) = trim t @ w @ [c]" using trim_snoc[OF assms] w(1) by simp
  then have "scoreOcrText (t @ [c]) =
       of_nat (count_matches is_letter (trim t)) + of_nat (count_matches is_letter [c])
     + of_nat (count_matches is_digit16 (trim t)) + of_nat (count_matches is_digit16 [c])
     - (of_nat (count_matches (\<lambda>c. c = replacement_glyph) (trim t))
        + of_nat (count_matches (\<lambda>c. c = replacement_glyph) [c])) * 5
     + min 200 (of_nat (length (trim t) + length w + 1) / 5)"
    unfolding score_trimmed
    by (simp add: count_matches_append count_white_space[OF w(2)] add.commute)
  then show ?thesis by (rule that)
qed

lemma trim_white: "\<forall>c \<in> set t. is_white_space c \<Longrightarrow> trim t = []"
  by (auto simp: trim_def dest: set_dropWhileD)




section \<open>Frames of a TIFF\<close>

lemma ocr_frames_malformed_head:
  "malformed page \<Longrightarrow>
   ocr_frames recognise i (page # rest) acc = Inl (InvalidDimensions (i + 1))
   \<or> ocr_frames recognise i (page # rest) acc = Inl (EmptyPixelData (i + 1))"
  by (auto simp: malformed_def)

lemma ocr_frames_pass_head:
  "frame_passes recognise page \<Longrightarrow>
   \<exists>text. ocr_frames recognise i (page # rest) acc
           = ocr_frames recognise (i + 1) rest (acc @ [trim text])"
  by (auto simp: frame_passes_def malformed_def split: sum.splits option.splits)

lemma ocr_frames_any_malformed:
  "\<exists>page \<in> set ifds. malformed page \<Longrightarrow> \<exists>e. ocr_frames recognise i ifds acc = Inl e"
proof (induction ifds arbitrary: i acc)
  case Nil
  then show ?case by simp
next
  case (Cons page rest)
  show ?case
  proof (cases "malformed page")
    case True
    then show ?thesis using ocr_frames_malformed_head[OF True, of recognise i rest acc] by auto
  next
    case False
    with Cons.prems have "\<exists>p \<in> set rest. malformed p" by simp
    from Cons.IH[OF this] show ?thesis
      by (auto split: sum.splits option.splits)
  qed
qed

lemma ocr_frames_first_malformed:
  assumes "k < length ifds" "malformed (ifds ! k)"
    and "\<forall>j < k. frame_passes recognise (ifds ! j)"
  shows "ocr_frames recognise i ifds acc = Inl (InvalidDimensions (i + k + 1))
       \<or> ocr_frames recognise i ifds acc = Inl (EmptyPixelData (i + k + 1))"
  using assms
proof (induction ifds arbitrary: i k acc)
  case Nil
  then show ?case by simp
next
  case (Cons page rest)
  show ?case
  proof (cases k)
    case 0
    then show ?thesis using Cons.prems(2) ocr_frames_malformed_head[of page recognise i rest acc]
      by simp
  next
    case (Suc k')
    have p: "frame_passes recognise page" using Cons.prems(3) Suc by auto
    then obtain tx where
      t: "ocr_frames recognise i (page # rest) acc
           = ocr_frames recognise (i + 1) rest (acc @ [trim tx])"
      using ocr_frames_pass_head by blast
    have "\<forall>j < k'. frame_passes recognise (rest ! j)" using Cons.prems(3) Suc by auto
    moreover have "k' < length rest" "malformed (rest ! k')" using Cons.prems(1,2) Suc by simp_all
    ultimately have "ocr_frames recognise (i + 1) rest (acc @ [trim tx]) = Inl (InvalidDimensions (i + 1 + k' + 1))
       \<or> ocr_frames recognise (i + 1) rest (acc @ [trim tx]) = Inl (EmptyPixelData (i + 1 + k' + 1))"
      by (intro Cons.IH)
    then show ?thesis unfolding t Suc by simp
  qed
qed

text \<open>
  C7. If a frame has a zero or missing dimension, or yields no pixel data, \<open>ocrTiff\<close> ends
  in an error and returns no text; and when the frames before the first such frame pass
  (their recognition does not fail), the error is the one for that frame and names its
  1-based page number.
\<close>

theorem malformed_frame_rejected:
  "((\<exists>page \<in> set ifds. malformed page) \<longrightarrow> (\<exists>e. ocrTiff u recognise ifds = Inl e))
   \<and> (has_decode u \<and> has_toRGBA8 u \<and> (hasDecodeImages u \<or> hasDecodeImage u)
        \<and> k < length ifds \<and> malformed (ifds ! k)
        \<and> (\<forall>j < k. frame_passes recognise (ifds ! j))
      \<longrightarrow> (\<exists>e. ocrTiff u recognise ifds = Inl e \<and> error_page e = Some (k + 1)
                \<and> (e = InvalidDimensions (k + 1) \<or> e = EmptyPixelData (k + 1))))"
proof (intro conjI impI)
  assume "\<exists>page \<in> set ifds. malformed page"
  from ocr_frames_any_malformed[OF this, of recognise 0 "[]"]
  show "\<exists>e. ocrTiff u recognise ifds = Inl e"
    by (auto simp: ocrTiff_def)
next
  assume a: "has_decode u \<and> has_toRGBA8 u \<and> (hasDecodeImages u \<or> hasDecodeImage u)
        \<and> k < length ifds \<and> malformed (ifds ! k)
        \<and> (\<forall>j < k. frame_passes recognise (ifds ! j))"
  then have ne: "ifds \<noteq> []" by auto
  from a have "ocr_frames recognise 0 ifds [] = Inl (InvalidDimensions (0 + k + 1))
       \<or> ocr_frames recognise 0 ifds [] = Inl (EmptyPixelData (0 + k + 1))"
    by (intro ocr_frames_first_malformed) simp_all
  then show "\<exists>e. ocrTiff u recognise ifds = Inl e \<and> error_page e = Some (k + 1)
                \<and> (e = InvalidDimensions (k + 1) \<or> e = EmptyPixelData (k + 1))"
    using a ne by (auto simp: ocrTiff_def)
qed

theorem malformed_frame_rejected_witness:
  "ocrTiff \<lparr>has_decode = True, has_toRGBA8 = True, hasDecodeImages = True, hasDecodeImage = False\<rparr>
     (\<lambda>w h d. Inr [72, 105])
     [\<lparr>width = Some 1, height = Some 1, toRGBA8 = Inr (Some [0, 0, 0, 255])\<rparr>,
      \<lparr>width = Some 0, height = Some 1, toRGBA8 = Inr (Some [0, 0, 0, 255])\<rparr>]
   = Inl (InvalidDimensions 2)"
proof -
  let ?u = "\<lparr>has_decode = True, has_toRGBA8 = True, hasDecodeImages = True, hasDecodeImage = False\<rparr>"
  let ?r = "\<lambda>(w :: nat) (h :: nat) (d :: nat list). (Inr [72, 105] :: ocr_error + ustring)"
  let ?ifds = "[\<lparr>width = Some 1, height = Some 1, toRGBA8 = Inr (Some [0, 0, 0, 255])\<rparr>,
      \<lparr>width = Some 0, height = Some 1, toRGBA8 = Inr (Some [0, 0, 0, 255])\<rparr>]"
  have prem: "has_decode ?u \<and> has_toRGBA8 ?u \<and> (hasDecodeImages ?u \<or> hasDecodeImage ?u)
        \<and> 1 < length ?ifds \<and> malformed (?ifds ! 1)
        \<and> (\<forall>j < 1. frame_passes ?r (?ifds ! j))"
    by (simp add: malformed_def frame_passes_def falsy_dim_def)
  from malformed_frame_rejected[of ?ifds ?u ?r 1, THEN conjunct2, THEN mp, OF prem]
  obtain e where e: "ocrTiff ?u ?r ?ifds = Inl e"
    "e = InvalidDimensions (1 + 1) \<or> e = EmptyPixelData (1 + 1)"
    by (elim exE conjE)
  have "ocrTiff ?u ?r ?ifds \<noteq> Inl (EmptyPixelData (1 + 1))"
    by (simp add: ocrTiff_def falsy_dim_def)
  with e show ?thesis by auto
qed

section \<open>The border of a sharpened image\<close>

lemma fold_untouched:
  "(\<And>x d. x \<in> set xs \<Longrightarrow> f x d ! k = d ! k) \<Longrightarrow> fold f xs d ! k = d ! k"
  by (induction xs arbitrary: d) simp_all

lemma sharpen_pixel_untouched:
  assumes "k < idx w x y \<or> idx w x y + 4 \<le> k"
  shows "sharpen_pixel w src x y dst ! k = dst ! k"
proof -
  have u: "[0..<3] = [0, 1, 2]" by (simp add: upt_rec)
  show ?thesis using assms by (auto simp: sharpen_pixel_def Let_def u)
qed

lemma pixel_of_byte:
  assumes "idx w x y \<le> k" "k < idx w x y + 4" "x < w"
  shows "(k div 4) mod w = x \<and> (k div 4) div w = y"
proof -
  define p where "p = y * w + x"
  have "p * 4 \<le> k" "k < p * 4 + 4" using assms(1,2) unfolding idx_def p_def by simp_all
  then have "k div 4 = p" by arith
  then show ?thesis using assms(3) unfolding p_def by simp
qed

lemma sharpen_row_untouched:
  assumes "is_border w h k" "1 \<le> y" "y < h - 1"
  shows "sharpen_row w src y dst ! k = dst ! k"
  unfolding sharpen_row_def
proof (rule fold_untouched)
  fix x d assume "x \<in> set [1..<w - 1]"
  then have x: "1 \<le> x" "x < w - 1" by simp_all
  have "k < idx w x y \<or> idx w x y + 4 \<le> k"
  proof (rule ccontr)
    assume "\<not> (k < idx w x y \<or> idx w x y + 4 \<le> k)"
    then have "(k div 4) mod w = x \<and> (k div 4) div w = y"
      using x by (intro pixel_of_byte) simp_all
    then show False using assms x by (auto simp: is_border_def Let_def)
  qed
  then show "sharpen_pixel w src x y d ! k = d ! k" by (rule sharpen_pixel_untouched)
qed

lemma sharpen_image_border:
  assumes "is_border w h k" "k < w * h * 4"
  shows "sharpen_image w h src ! k = 0"
proof -
  have "sharpen_image w h src ! k = replicate (w * h * 4) 0 ! k"
    unfolding sharpen_image_def
    by (rule fold_untouched) (simp add: sharpen_row_untouched[OF assms(1)])
  then show ?thesis using assms(2) by simp
qed

text \<open>
  C5 fails on the code. With sharpening on, every byte of a border pixel of the returned
  canvas is 0 (transparent black) whatever the bitmap: the border is never copied from
  the binarised image.
\<close>

theorem sharpen_clears_border:
  assumes "sharpen cfg" and "k < w * h * 4" and "is_border w h k"
  shows "preprocess_pixels cfg w h d ! k = 0"
  using assms by (simp add: preprocess_pixels_def Let_def sharpen_image_border)

theorem sharpen_clears_border_witness:
  "binarize default_config
     [255, 255, 255, 255, 255, 255, 255, 255, 255, 255, 255, 255,
      255, 255, 255, 255, 255, 255, 255, 255, 255, 255, 255, 255,
      255, 255, 255, 255, 255, 255, 255, 255, 255, 255, 255, 255] ! 0 = 255
   \<and> preprocess_pixels default_config 3 3
     [255, 255, 255, 255, 255, 255, 255, 255, 255, 255, 255, 255,
      255, 255, 255, 255, 255, 255, 255, 255, 255, 255, 255, 255,
      255, 255, 255, 255, 255, 255, 255, 255, 255, 255, 255, 255] ! 0 = 0"
proof -
  have b: "is_border 3 3 0" "sharpen default_config" "(0 :: nat) < 3 * 3 * 4"
    by (simp_all add: is_border_def default_config_def)
  have v: "binarize_pixel default_config 255 255 255 = 255"
    by (simp add: binarize_pixel_def default_config_def Let_def)
  show ?thesis
    using sharpen_clears_border[OF b(2) b(3) b(1)] by (simp add: v Let_def)
qed

end
